theory Spec2Isabelle
  imports Main "HOL-Library.Word" "HOL-Library.Sublist"
begin

section \<open>FrameMover: the React shell (src/App.tsx)\<close>

subsection \<open>JavaScript strings and array slices\<close>

text \<open>
  A JavaScript string is a sequence of UTF-16 code units. \<open>js\<close> embeds an ASCII
  literal; a character outside ASCII is written as its code unit.
\<close>

type_synonym jsstring = "16 word list"

definition js :: "string \<Rightarrow> jsstring" where
  "js s = map (\<lambda>c. word_of_nat (of_char c)) s"

text \<open>
  The code units \<open>String.prototype.trim\<close> strips: ECMAScript's WhiteSpace (TAB, VT, FF,
  SP, NBSP, ZWNBSP and the category Zs) and LineTerminator (LF, CR, LS, PS).
\<close>

definition is_js_whitespace :: "16 word \<Rightarrow> bool" where
  "is_js_whitespace c =
     (c = 0x0009 \<or> c = 0x000A \<or> c = 0x000B \<or> c = 0x000C \<or> c = 0x000D \<or> c = 0x0020 \<or>
      c = 0x00A0 \<or> c = 0x1680 \<or> (0x2000 \<le> c \<and> c \<le> 0x200A) \<or> c = 0x2028 \<or>
      c = 0x2029 \<or> c = 0x202F \<or> c = 0x205F \<or> c = 0x3000 \<or> c = 0xFEFF)"

definition trim :: "jsstring \<Rightarrow> jsstring" where
  "trim s = rev (dropWhile is_js_whitespace (rev (dropWhile is_js_whitespace s)))"

text \<open>A string in a condition: the empty string is falsy, every other string truthy.\<close>

definition truthy :: "jsstring \<Rightarrow> bool" where
  "truthy s = (s \<noteq> [])"

text \<open>
  \<open>xs.slice(start)\<close>: a negative start counts from the end, and both are clamped to the
  array.
\<close>

definition js_slice :: "int \<Rightarrow> 'a list \<Rightarrow> 'a list" where
  "js_slice start xs =
     (let len = int (length xs);
          k = (if start < 0 then max (len + start) 0 else min start len)
      in drop (nat k) xs)"

text \<open>
  The decimal numeral of a natural number, as \<open>Number.prototype.toString\<close> and Rust's
  \<open>to_string\<close> print a non-negative integer.
\<close>

definition digit :: "nat \<Rightarrow> char" where
  "digit d = ''0123456789'' ! d"

fun dec :: "nat \<Rightarrow> string" where
  "dec n = (if n < 10 then [digit n] else dec (n div 10) @ [digit (n mod 10)])"

declare dec.simps [simp del]

subsection \<open>The component's state\<close>

text \<open>
  The fields of \<open>ProgressEvent\<close> typed \<open>number\<close> are kept abstract (\<open>'n\<close>): the
  shell stores and prints them and computes nothing from them. Printing a number inside
  a template literal is the runtime's conversion, the parameter \<open>fmt\<close> below.
\<close>

record 'n ProgressEvent =
  phase :: jsstring
  currentFile :: "jsstring option"
  scanned :: 'n
  matched :: 'n
  moved :: 'n
  skippedDuplicates :: 'n
  errors :: 'n
  percent :: 'n

record 'n App =
  sourcePath :: jsstring
  destPath :: jsstring
  suffixInput :: jsstring
  dryRun :: bool
  verbose :: bool
  running :: bool
  progress :: "'n ProgressEvent"
  logLines :: "jsstring list"
  error :: "jsstring option"
  dragOver :: bool

text \<open>The commands the shell sends to the backend through \<open>invoke\<close>.\<close>

datatype command =
  StartMove jsstring jsstring jsstring bool bool
  | CancelMove

subsection \<open>The handlers\<close>

text \<open>\<open>setLogLines((prev) => [...prev.slice(-500), line])\<close>\<close>

definition addLog :: "jsstring \<Rightarrow> 'n App \<Rightarrow> 'n App" where
  "addLog line st = st\<lparr>logLines := js_slice (- 500) (logLines st) @ [line]\<rparr>"

text \<open>
  The \<open>progress\<close> listener. The two \<open>addLog\<close> calls are functional updates, applied
  in order to the log the first one left.
\<close>

definition summary :: "('n \<Rightarrow> jsstring) \<Rightarrow> 'n ProgressEvent \<Rightarrow> jsstring" where
  "summary fmt ev =
     js ''Done. Moved: '' @ fmt (moved ev) @ js '', Duplicates skipped: '' @
     fmt (skippedDuplicates ev) @ js '', Errors: '' @ fmt (errors ev)"

definition on_progress :: "('n \<Rightarrow> jsstring) \<Rightarrow> 'n ProgressEvent \<Rightarrow> 'n App \<Rightarrow> 'n App" where
  "on_progress fmt ev st =
     (let st1 = st\<lparr>progress := ev\<rparr>;
          st2 = (if phase ev = js ''done''
                 then addLog (summary fmt ev) (st1\<lparr>running := False\<rparr>)
                 else st1)
      in case currentFile ev of
           None \<Rightarrow> st2
         | Some f \<Rightarrow> if truthy f \<and> verbose st then addLog f st2 else st2)"

text \<open>
  The folder pickers: \<open>selected\<close> is \<open>None\<close> when the dialog returns null or something
  that is not a string.
\<close>

definition pickSource :: "jsstring option \<Rightarrow> 'n App \<Rightarrow> 'n App" where
  "pickSource selected st =
     (let st1 = st\<lparr>error := None\<rparr>
      in case selected of
           None \<Rightarrow> st1
         | Some p \<Rightarrow> if truthy p then addLog (js ''Source: '' @ p) (st1\<lparr>sourcePath := p\<rparr>) else st1)"

definition pickDest :: "jsstring option \<Rightarrow> 'n App \<Rightarrow> 'n App" where
  "pickDest selected st =
     (let st1 = st\<lparr>error := None\<rparr>
      in case selected of
           None \<Rightarrow> st1
         | Some p \<Rightarrow> if truthy p then addLog (js ''Destination: '' @ p) (st1\<lparr>destPath := p\<rparr>) else st1)"

text \<open>
  \<open>start\<close> up to its \<open>await\<close>: the state it sets and the command it sends.
  \<open>start_failed\<close> is its \<open>catch\<close> branch, run when the command is rejected with \<open>e\<close>
  (given as \<open>String(e)\<close>).
\<close>

definition start :: "'n App \<Rightarrow> 'n App \<times> command list" where
  "start st =
     (st\<lparr>error := None, logLines := logLines st @ [js ''Starting'' @ [0x2026]], running := True\<rparr>,
      [StartMove (sourcePath st) (destPath st) (trim (suffixInput st)) (dryRun st) (verbose st)])"

definition start_failed :: "jsstring \<Rightarrow> 'n App \<Rightarrow> 'n App" where
  "start_failed e st = addLog (js ''Error: '' @ e) (st\<lparr>error := Some e, running := False\<rparr>)"

definition cancel :: "'n App \<Rightarrow> 'n App \<times> command list" where
  "cancel st = (st, [CancelMove])"

definition cancel_resolved :: "'n App \<Rightarrow> 'n App" where
  "cancel_resolved st = addLog (js ''Cancel requested.'') st"

definition cancel_failed :: "jsstring \<Rightarrow> 'n App \<Rightarrow> 'n App" where
  "cancel_failed e st = addLog (js ''Cancel error: '' @ e) st"

text \<open>\<open>handleDrop\<close>: \<open>dropped\<close> is the path of the first item when it is a file with one.\<close>

definition handleDrop :: "jsstring option \<Rightarrow> 'n App \<Rightarrow> 'n App" where
  "handleDrop dropped st =
     (let st1 = st\<lparr>dragOver := False\<rparr>
      in case dropped of
           None \<Rightarrow> st1
         | Some p \<Rightarrow>
             if truthy p then addLog (js ''Source (from drop): '' @ p) (st1\<lparr>sourcePath := p\<rparr>)
             else st1)"

subsection \<open>The rendered controls\<close>

text \<open>
  \<open>disabled={running || !sourcePath || !destPath || !suffixInput.trim()}\<close> on Start,
  \<open>disabled={!running}\<close> on Cancel, \<open>disabled={running}\<close> on the two checkboxes.
\<close>

definition start_disabled :: "'n App \<Rightarrow> bool" where
  "start_disabled st =
     (running st \<or> \<not> truthy (sourcePath st) \<or> \<not> truthy (destPath st) \<or>
      \<not> truthy (trim (suffixInput st)))"

definition cancel_disabled :: "'n App \<Rightarrow> bool" where
  "cancel_disabled st = (\<not> running st)"

text \<open>The state of the first render (the \<open>useState\<close> defaults).\<close>

definition init_App :: "'n::zero App" where
  "init_App =
     \<lparr>sourcePath = [], destPath = [], suffixInput = [], dryRun = False, verbose = False,
      running = False,
      progress = \<lparr>phase = js ''idle'', currentFile = None, scanned = 0, matched = 0, moved = 0,
                  skippedDuplicates = 0, errors = 0, percent = 0\<rparr>,
      logLines = [], error = None, dragOver = False\<rparr>"

text \<open>
  What can happen to the component: a user action on a control, the outcome of a pending
  \<open>invoke\<close>, or a \<open>progress\<close> event from the backend. A disabled control dispatches
  nothing. Each step returns the next state and the commands sent.
\<close>

datatype 'n event =
  BrowseSource "jsstring option"
  | BrowseDest "jsstring option"
  | Drop "jsstring option"
  | DragOver
  | DragLeave
  | EditSuffix jsstring
  | CheckDryRun bool
  | CheckVerbose bool
  | ClickStart
  | StartFailed jsstring
  | ClickCancel
  | CancelResolved
  | CancelFailed jsstring
  | Progress "'n ProgressEvent"

fun step :: "('n \<Rightarrow> jsstring) \<Rightarrow> 'n event \<Rightarrow> 'n App \<Rightarrow> 'n App \<times> command list" where
  "step fmt (BrowseSource sel) st = (pickSource sel st, [])"
| "step fmt (BrowseDest sel) st = (pickDest sel st, [])"
| "step fmt (Drop p) st = (handleDrop p st, [])"
| "step fmt DragOver st = (st\<lparr>dragOver := True\<rparr>, [])"
| "step fmt DragLeave st = (st\<lparr>dragOver := False\<rparr>, [])"
| "step fmt (EditSuffix t) st = (st\<lparr>suffixInput := t\<rparr>, [])"
| "step fmt (CheckDryRun b) st = (if running st then st else st\<lparr>dryRun := b\<rparr>, [])"
| "step fmt (CheckVerbose b) st = (if running st then st else st\<lparr>verbose := b\<rparr>, [])"
| "step fmt ClickStart st = (if start_disabled st then (st, []) else start st)"
| "step fmt (StartFailed e) st = (start_failed e st, [])"
| "step fmt ClickCancel st = (if cancel_disabled st then (st, []) else cancel st)"
| "step fmt CancelResolved st = (cancel_resolved st, [])"
| "step fmt (CancelFailed e) st = (cancel_failed e st, [])"
| "step fmt (Progress ev) st = (on_progress fmt ev st, [])"


subsection \<open>The command-line entry\<close>



subsection \<open>Sample states and events\<close>

text \<open>A state in which Start is enabled and the suffix text starts with a space.\<close>

definition padded_state :: "nat App" where
  "padded_state = init_App\<lparr>sourcePath := js ''/a'', destPath := js ''/b'', suffixInput := js '' 7612''\<rparr>"


text \<open>A final event of a run, and the same event with the phase \<open>cancelled\<close>.\<close>

definition done_event :: "nat ProgressEvent" where
  "done_event =
     \<lparr>phase = js ''done'', currentFile = None, scanned = 3, matched = 2, moved = 1,
      skippedDuplicates = 1, errors = 0, percent = 100\<rparr>"

definition cancelled_event :: "nat ProgressEvent" where
  "cancelled_event = done_event\<lparr>phase := js ''cancelled''\<rparr>"

definition busy_state :: "nat App" where
  "busy_state = init_App\<lparr>running := True\<rparr>"

text \<open>
  A running state in verbose mode with one line in its log, and an event of the phase
  \<open>moving\<close> that names a file.
\<close>

definition logging_state :: "nat App" where
  "logging_state =
     init_App\<lparr>running := True, verbose := True, logLines := [js ''Starting'' @ [0x2026]]\<rparr>"

definition moving_event :: "nat ProgressEvent" where
  "moving_event =
     done_event\<lparr>phase := js ''moving'', currentFile := Some (js ''A/IMG_7612.JPG'')\<rparr>"

section \<open>The engine, from its specification\<close>

text \<open>
  The scan/match/dedup/move engine is Rust code under \<open>src-tauri/src/engine/\<close>; the
  definitions of this section follow the specification's description of it.
\<close>

subsection \<open>Matcher\<close>

text \<open>
  Modelled from the spec: the case folding behind the Matcher's case-insensitive
  extension check (ASCII letters; the accepted extensions are ASCII).
\<close>

definition lower :: "char \<Rightarrow> char" where
  "lower c =
     (case map_of (zip ''ABCDEFGHIJKLMNOPQRSTUVWXYZ'' ''abcdefghijklmnopqrstuvwxyz'') c of
        None \<Rightarrow> c
      | Some l \<Rightarrow> l)"

text \<open>
  Modelled from the spec: the stem of a file name is the name without its final extension,
  the extension what follows the last dot; a name with no dot has no extension.
\<close>

definition split_ext :: "string \<Rightarrow> string \<times> string" where
  "split_ext name =
     (if CHR ''.'' \<in> set name
      then (rev (tl (dropWhile (\<lambda>c. c \<noteq> CHR ''.'') (rev name))),
            rev (takeWhile (\<lambda>c. c \<noteq> CHR ''.'') (rev name)))
      else (name, []))"

text \<open>
  Modelled from the spec: the Scanner's FileCandidate, with the fields the Matcher reads
  (the paths are left out).
\<close>

record FileCandidate =
  filename :: string
  stem :: string
  extension :: string

text \<open>Modelled from the spec: the candidate the Scanner yields for a file name.\<close>

definition candidate :: "string \<Rightarrow> FileCandidate" where
  "candidate name =
     \<lparr>filename = name, stem = fst (split_ext name), extension = snd (split_ext name)\<rparr>"

text \<open>Modelled from the spec: the fixed set of accepted image extensions.\<close>

definition supported_extensions :: "string list" where
  "supported_extensions = [''jpg'', ''jpeg'', ''png'', ''heic'', ''gif'', ''tiff'', ''webp'']"

text \<open>
  Modelled from the spec: the Matcher's suffix check, an exact comparison of the trailing
  characters of the stem with the suffix.
\<close>

definition ends_with :: "string \<Rightarrow> string \<Rightarrow> bool" where
  "ends_with s suf = (length suf \<le> length s \<and> drop (length s - length suf) s = suf)"

text \<open>
  Modelled from the spec: a MatchDecision is an outcome with its reason; an accepted one
  carries the first suffix of the set that matched.
\<close>

datatype MatchDecision = ExtensionRejected | SuffixRejected | Accepted string

text \<open>
  Modelled from the spec: the Matcher, a pure function from the suffix set (in its order)
  and a candidate to a decision: the extension check first, then the suffix check.
\<close>

definition matcher :: "string list \<Rightarrow> FileCandidate \<Rightarrow> MatchDecision" where
  "matcher S c =
     (if map lower (extension c) \<notin> set supported_extensions then ExtensionRejected
      else case find (ends_with (stem c)) S of
             None \<Rightarrow> SuffixRejected
           | Some s \<Rightarrow> Accepted s)"

text \<open>Modelled from the spec: the boolean outcome of a MatchDecision.\<close>

fun accepted :: "MatchDecision \<Rightarrow> bool" where
  "accepted (Accepted s) = True"
| "accepted d = False"

subsection \<open>CollisionResolver\<close>

text \<open>
  Modelled from the spec: the \<open>k\<close>-th alternate of a file name, the numeric suffix
  \<open>-k\<close> inserted immediately before the extension (appended when there is none).
\<close>

definition alt_name :: "string \<Rightarrow> nat \<Rightarrow> string" where
  "alt_name name k =
     (if CHR ''.'' \<in> set name
      then fst (split_ext name) @ ''-'' @ dec k @ ''.'' @ snd (split_ext name)
      else name @ ''-'' @ dec k)"

text \<open>
  Modelled from the spec: the CollisionResolver's loop, incrementing the suffix until an
  unused name is found. \<open>occupied\<close> lists the file names in use in the destination
  directory. The loop has no bound of its own, so it is a partial function: \<open>None\<close>
  stands for a search that never ends.
\<close>

partial_function (option) first_unused :: "string list \<Rightarrow> string \<Rightarrow> nat \<Rightarrow> string option" where
  "first_unused occupied name k =
     (if alt_name name k \<in> set occupied then first_unused occupied name (Suc k)
      else Some (alt_name name k))"

text \<open>
  Modelled from the spec: the CollisionResolver. A free name is returned unchanged; for
  an occupied one the search starts at \<open>-1\<close>.
\<close>

definition resolve :: "string list \<Rightarrow> string \<Rightarrow> string option" where
  "resolve occupied name =
     (if name \<in> set occupied then first_unused occupied name 1 else Some name)"

text \<open>Reading a decimal numeral back, to show that distinct numbers print differently.\<close>

definition digit_value :: "char \<Rightarrow> nat" where
  "digit_value c = length (takeWhile (\<lambda>d. d \<noteq> c) ''0123456789'')"

definition undec :: "string \<Rightarrow> nat" where
  "undec s = foldl (\<lambda>a c. 10 * a + digit_value c) 0 s"

section \<open>Properties of the shell\<close>

lemma trim_blank: "trim s = [] \<longleftrightarrow> (\<forall>c \<in> set s. is_js_whitespace c)"
proof
  assume "trim s = []"
  then have a: "\<forall>x \<in> set (dropWhile is_js_whitespace s). is_js_whitespace x"
    by (simp add: trim_def)
  have "dropWhile is_js_whitespace s = []"
  proof (rule ccontr)
    assume n: "dropWhile is_js_whitespace s \<noteq> []"
    then have "\<not> is_js_whitespace (hd (dropWhile is_js_whitespace s))"
      by (rule hd_dropWhile)
    moreover have "hd (dropWhile is_js_whitespace s) \<in> set (dropWhile is_js_whitespace s)"
      using n by (rule hd_in_set)
    ultimately show False using a by blast
  qed
  then show "\<forall>c \<in> set s. is_js_whitespace c" by simp
next
  assume "\<forall>c \<in> set s. is_js_whitespace c"
  then have "dropWhile is_js_whitespace s = []" by simp
  then show "trim s = []" by (simp only: trim_def rev.simps dropWhile.simps)
qed


lemma last_dropWhile: "dropWhile P xs \<noteq> [] \<Longrightarrow> last (dropWhile P xs) = last xs"
  by (metis last_appendR takeWhile_dropWhile_id)

lemma trim_ends:
  assumes "trim s \<noteq> []"
  shows "\<not> is_js_whitespace (hd (trim s)) \<and> \<not> is_js_whitespace (last (trim s))"
proof -
  let ?t = "dropWhile is_js_whitespace s"
  let ?u = "dropWhile is_js_whitespace (rev ?t)"
  from assms have u: "?u \<noteq> []" by (simp add: trim_def)
  have t: "?t \<noteq> []"
  proof
    assume "?t = []"
    then have "?u = []" by (simp only: rev.simps dropWhile.simps)
    with u show False by simp
  qed
  have "last (trim s) = hd ?u" using u by (simp add: trim_def last_rev)
  moreover have "\<not> is_js_whitespace (hd ?u)" using u by (rule hd_dropWhile)
  moreover have "hd (trim s) = last ?u" using u by (simp add: trim_def hd_rev)
  moreover have "last ?u = last (rev ?t)" using u by (rule last_dropWhile)
  moreover have "last (rev ?t) = hd ?t" using t by (simp add: last_rev)
  moreover have "\<not> is_js_whitespace (hd ?t)" using t by (rule hd_dropWhile)
  ultimately show ?thesis by simp
qed

lemma trim_idem: "trim (trim s) = trim s"
proof (cases "trim s = []")
  case True
  have "trim [] = []" by (simp add: trim_def)
  with True show ?thesis by (simp only:)
next
  case False
  from trim_ends [OF False]
  have h: "\<not> is_js_whitespace (hd (trim s))" and l: "\<not> is_js_whitespace (last (trim s))"
    by simp_all
  have 1: "dropWhile is_js_whitespace (trim s) = trim s"
    using h by (simp add: dropWhile_eq_self_iff)
  have "hd (rev (trim s)) = last (trim s)" using False by (simp add: hd_rev)
  with l have 2: "dropWhile is_js_whitespace (rev (trim s)) = rev (trim s)"
    by (simp add: dropWhile_eq_self_iff)
  have "trim (trim s) = rev (dropWhile is_js_whitespace (rev (dropWhile is_js_whitespace (trim s))))"
    by (simp only: trim_def)
  also have "\<dots> = trim s" by (simp only: 1 2 rev_rev_ident)
  finally show ?thesis .
qed

lemma js_slice_neg: "0 < n \<Longrightarrow> js_slice (- int n) xs = drop (length xs - n) xs"
  by (simp add: js_slice_def Let_def nat_diff_distrib' max_def)

lemma addLog_twice:
  "drop (length (drop (length L - 500) L @ [s]) - 500) (drop (length L - 500) L @ [s]) @ [f] =
   drop (length L - 499) L @ [s, f]"
proof (cases "length L < 500")
  case True
  then show ?thesis by simp
next
  case False
  then have "length L - 500 + 1 = length L - 499" by simp
  with False show ?thesis by (simp add: drop_append)
qed







text \<open>
  C8. On a \<open>progress\<close> event the listener clears the running flag exactly when the phase
  is \<open>done\<close>, and leaves it as it was for every other phase (\<open>cancelled\<close> included).
  Exactly when the phase is \<open>done\<close> the completion summary
  \<open>Done. Moved: m, Duplicates skipped: s, Errors: e\<close> is appended to the log, after the
  last 500 lines of the log as it was (the last 499 when the current file follows it in
  verbose mode); for any other phase the log is as it was, but for the current file
  appended in verbose mode.
\<close>

theorem progress_listener_done:
  "running (on_progress fmt ev st) = (running st \<and> phase ev \<noteq> js ''done'') \<and>
   progress (on_progress fmt ev st) = ev \<and>
   (phase ev = js ''done'' \<and> (currentFile ev = None \<or> currentFile ev = Some [] \<or> \<not> verbose st) \<longrightarrow>
      logLines (on_progress fmt ev st) =
        drop (length (logLines st) - 500) (logLines st) @
        [js ''Done. Moved: '' @ fmt (moved ev) @ js '', Duplicates skipped: '' @
         fmt (skippedDuplicates ev) @ js '', Errors: '' @ fmt (errors ev)]) \<and>
   (phase ev = js ''done'' \<and> currentFile ev = Some f \<and> f \<noteq> [] \<and> verbose st \<longrightarrow>
      logLines (on_progress fmt ev st) =
        drop (length (logLines st) - 499) (logLines st) @
        [js ''Done. Moved: '' @ fmt (moved ev) @ js '', Duplicates skipped: '' @
         fmt (skippedDuplicates ev) @ js '', Errors: '' @ fmt (errors ev), f]) \<and>
   (phase ev \<noteq> js ''done'' \<and> (currentFile ev = None \<or> currentFile ev = Some [] \<or> \<not> verbose st) \<longrightarrow>
      logLines (on_progress fmt ev st) = logLines st) \<and>
   (phase ev \<noteq> js ''done'' \<and> currentFile ev = Some f \<and> f \<noteq> [] \<and> verbose st \<longrightarrow>
      logLines (on_progress fmt ev st) = drop (length (logLines st) - 500) (logLines st) @ [f])"
proof -
  have s: "js_slice (- 500) xs = drop (length xs - 500) xs" for xs :: "jsstring list"
    using js_slice_neg [of 500 xs] by simp
  have r: "running (on_progress fmt ev st) = (running st \<and> phase ev \<noteq> js ''done'')"
    by (simp add: on_progress_def addLog_def Let_def split: option.splits)
  have p: "progress (on_progress fmt ev st) = ev"
    by (simp add: on_progress_def addLog_def Let_def split: option.splits)
  have a: "logLines (on_progress fmt ev st) =
        drop (length (logLines st) - 500) (logLines st) @ [summary fmt ev]"
    if "phase ev = js ''done''" "currentFile ev = None \<or> currentFile ev = Some [] \<or> \<not> verbose st"
    using that by (auto simp: on_progress_def addLog_def Let_def s truthy_def split: option.splits)
  have b: "logLines (on_progress fmt ev st) =
        drop (length (logLines st) - 499) (logLines st) @ [summary fmt ev, f]"
    if "phase ev = js ''done''" "currentFile ev = Some f" "f \<noteq> []" "verbose st"
    using that addLog_twice [of "logLines st" "summary fmt ev" f]
    by (simp add: on_progress_def addLog_def Let_def s truthy_def)
  have c: "logLines (on_progress fmt ev st) = logLines st"
    if "phase ev \<noteq> js ''done''" "currentFile ev = None \<or> currentFile ev = Some [] \<or> \<not> verbose st"
    using that by (auto simp: on_progress_def addLog_def Let_def truthy_def split: option.splits)
  have d: "logLines (on_progress fmt ev st) = drop (length (logLines st) - 500) (logLines st) @ [f]"
    if "phase ev \<noteq> js ''done''" "currentFile ev = Some f" "f \<noteq> []" "verbose st"
    using that by (simp add: on_progress_def addLog_def Let_def s truthy_def)
  from r p a b c d show ?thesis unfolding summary_def by blast
qed

theorem progress_listener_done_witness:
  "running (on_progress (\<lambda>n. js (dec n)) done_event logging_state) = False \<and>
   logLines (on_progress (\<lambda>n. js (dec n)) done_event logging_state) =
     [js ''Starting'' @ [0x2026], js ''Done. Moved: 1, Duplicates skipped: 1, Errors: 0''] \<and>
   running (on_progress (\<lambda>n. js (dec n)) cancelled_event logging_state) = True \<and>
   logLines (on_progress (\<lambda>n. js (dec n)) cancelled_event logging_state) = [js ''Starting'' @ [0x2026]] \<and>
   running (on_progress (\<lambda>n. js (dec n)) moving_event logging_state) = True \<and>
   logLines (on_progress (\<lambda>n. js (dec n)) moving_event logging_state) =
     [js ''Starting'' @ [0x2026], js ''A/IMG_7612.JPG''] \<and>
   logLines (on_progress (\<lambda>n. js (dec n)) (moving_event\<lparr>phase := js ''done''\<rparr>)
       (logging_state\<lparr>logLines := replicate 500 (js ''x'')\<rparr>)) =
     replicate 499 (js ''x'') @ [js ''Done. Moved: 1, Duplicates skipped: 1, Errors: 0'', js ''A/IMG_7612.JPG'']"
  using progress_listener_done [of "\<lambda>n. js (dec n)" done_event logging_state "[]"]
    progress_listener_done [of "\<lambda>n. js (dec n)" cancelled_event logging_state "[]"]
    progress_listener_done [of "\<lambda>n. js (dec n)" moving_event logging_state "js ''A/IMG_7612.JPG''"]
    progress_listener_done [of "\<lambda>n. js (dec n)" "moving_event\<lparr>phase := js ''done''\<rparr>"
      "logging_state\<lparr>logLines := replicate 500 (js ''x'')\<rparr>" "js ''A/IMG_7612.JPG''"]
  by (simp add: done_event_def cancelled_event_def moving_event_def logging_state_def init_App_def
      js_def dec.simps digit_def)

text \<open>
  C9. The Start button is disabled exactly when a run is marked running, or the source
  path is empty, or the destination path is empty, or the suffix text is blank (empty or
  white space only). Hence whenever a step of the component sends \<open>start_move\<close>, the step
  is a click on Start in a state not marked running, the suffix sent is the trimmed text,
  it is not empty (nor blank), and a second click right after it sends nothing.
\<close>

theorem start_button_guard:
  "(start_disabled st \<longleftrightarrow>
      running st \<or> sourcePath st = [] \<or> destPath st = [] \<or>
      (\<forall>c \<in> set (suffixInput st). is_js_whitespace c)) \<and>
   (StartMove s d x r v \<in> set (snd (step fmt ev st)) \<longrightarrow>
      ev = ClickStart \<and> \<not> start_disabled st \<and> \<not> running st \<and>
      x = trim (suffixInput st) \<and> x \<noteq> [] \<and> trim x \<noteq> [] \<and>
      snd (step fmt ClickStart (fst (step fmt ev st))) = [])"
proof -
  have a: "start_disabled st \<longleftrightarrow>
      running st \<or> sourcePath st = [] \<or> destPath st = [] \<or>
      (\<forall>c \<in> set (suffixInput st). is_js_whitespace c)"
    by (simp add: start_disabled_def truthy_def trim_blank)
  have b: "ev = ClickStart \<and> \<not> start_disabled st \<and> \<not> running st \<and>
      x = trim (suffixInput st) \<and> x \<noteq> [] \<and> trim x \<noteq> [] \<and>
      snd (step fmt ClickStart (fst (step fmt ev st))) = []"
    if m: "StartMove s d x r v \<in> set (snd (step fmt ev st))"
  proof -
    from m have ev: "ev = ClickStart"
      by (cases ev) (auto simp: cancel_def split: if_splits)
    from m ev have en: "\<not> start_disabled st" by (auto split: if_splits)
    from m ev en have x: "x = trim (suffixInput st)" by (simp add: start_def)
    from en have ne: "trim (suffixInput st) \<noteq> []" and nr: "\<not> running st"
      by (simp_all add: start_disabled_def truthy_def)
    have "running (fst (start st))" by (simp add: start_def)
    then have "start_disabled (fst (start st))" by (simp add: start_disabled_def)
    with ev en have "snd (step fmt ClickStart (fst (step fmt ev st))) = []" by simp
    with ev en x ne nr show ?thesis by (simp add: trim_idem)
  qed
  from a b show ?thesis by blast
qed

theorem start_button_guard_witness:
  "\<not> start_disabled padded_state \<and>
   StartMove (js ''/a'') (js ''/b'') (js ''7612'') False False
     \<in> set (snd (step (\<lambda>n. js (dec n)) ClickStart padded_state)) \<and>
   js ''7612'' \<noteq> [] \<and>
   snd (step (\<lambda>n. js (dec n)) ClickStart (fst (step (\<lambda>n. js (dec n)) ClickStart padded_state))) = [] \<and>
   start_disabled busy_state"
  using start_button_guard [of padded_state "js ''/a''" "js ''/b''" "js ''7612''" False False
      "\<lambda>n. js (dec n)" ClickStart]
    start_button_guard [of busy_state "js ''/a''" "js ''/b''" "js ''7612''" False False
      "\<lambda>n. js (dec n)" ClickStart]
  by (simp add: padded_state_def busy_state_def init_App_def start_def start_disabled_def
      truthy_def trim_def js_def is_js_whitespace_def)

text \<open>
  C10. After every \<open>addLog\<close> call the log holds at most 501 lines: the new log is the
  last 500 entries of the previous one (all of them when there are fewer), in their order,
  followed by the new line.
\<close>

theorem addLog_bounded:
  "length (logLines (addLog line st)) \<le> 501 \<and>
   logLines (addLog line st) = drop (length (logLines st) - 500) (logLines st) @ [line] \<and>
   suffix (logLines (addLog line st)) (logLines st @ [line])"
proof -
  have eq: "logLines (addLog line st) = drop (length (logLines st) - 500) (logLines st) @ [line]"
    using js_slice_neg [of 500 "logLines st"] by (simp add: addLog_def)
  have "suffix (drop (length (logLines st) - 500) (logLines st)) (logLines st)"
    by (rule suffix_drop)
  then have "suffix (drop (length (logLines st) - 500) (logLines st) @ [line]) (logLines st @ [line])"
    by simp
  with eq show ?thesis by simp
qed

section \<open>Properties of the engine\<close>

subsection \<open>Matcher\<close>

lemma ends_with_suffix: "ends_with s suf \<longleftrightarrow> suffix suf s"
proof
  assume "ends_with s suf"
  then have "drop (length s - length suf) s = suf" by (simp add: ends_with_def)
  then have "s = take (length s - length suf) s @ suf"
    by (metis append_take_drop_id)
  then show "suffix suf s" by (rule suffixI)
next
  assume "suffix suf s"
  then obtain p where "s = p @ suf" by (auto simp: suffix_def)
  then show "ends_with s suf" by (simp add: ends_with_def)
qed

lemma lower_supported: "e \<in> set supported_extensions \<Longrightarrow> map lower e = e"
  by (auto simp: supported_extensions_def lower_def)

lemma split_ext_join: "CHR ''.'' \<notin> set e \<Longrightarrow> split_ext (s @ ''.'' @ e) = (s, e)"
  by (simp add: split_ext_def takeWhile_append dropWhile_append)

lemma matcher_accepted_iff:
  "accepted (matcher S c) \<longleftrightarrow>
     (\<exists>e \<in> set supported_extensions. map lower (extension c) = map lower e) \<and>
     (\<exists>s \<in> set S. suffix s (stem c))"
proof -
  have 1: "(map lower (extension c) \<in> set supported_extensions) \<longleftrightarrow>
        (\<exists>e \<in> set supported_extensions. map lower (extension c) = map lower e)"
    using lower_supported by force
  have 2: "(find (ends_with (stem c)) S \<noteq> None) \<longleftrightarrow> (\<exists>s \<in> set S. suffix s (stem c))"
    by (auto simp: find_None_iff ends_with_suffix)
  show ?thesis
    unfolding 1 [symmetric] 2 [symmetric]
    by (simp add: matcher_def split: option.splits)
qed

text \<open>
  C2. For every suffix set \<open>S\<close> and every file name \<open>F\<close>, the Matcher accepts \<open>F\<close> if
  and only if the extension of \<open>F\<close> is, ignoring case, one of jpg, jpeg, png, heic, gif,
  tiff, webp, and the stem of \<open>F\<close> ends with a member of \<open>S\<close> as a character sequence.
  The stem and the extension of \<open>s.e\<close> are \<open>s\<close> and \<open>e\<close> when \<open>e\<close> has no dot. In
  particular the stem \<open>IMG_7612\<close> is accepted for the suffix \<open>612\<close> and the stem \<open>123\<close>
  for the suffix \<open>23\<close>, whatever the accepted extension.
\<close>

theorem matcher_accepts:
  "(accepted (matcher S (candidate F)) \<longleftrightarrow>
      (\<exists>e \<in> set supported_extensions.
          map lower (extension (candidate F)) = map lower e) \<and>
      (\<exists>s \<in> set S. suffix s (stem (candidate F)))) \<and>
   (CHR ''.'' \<notin> set e \<longrightarrow>
      stem (candidate (s @ ''.'' @ e)) = s \<and> extension (candidate (s @ ''.'' @ e)) = e) \<and>
   (CHR ''.'' \<notin> set e \<and> map lower e \<in> set supported_extensions \<longrightarrow>
      accepted (matcher [''612''] (candidate (''IMG_7612'' @ ''.'' @ e))) \<and>
      accepted (matcher [''23''] (candidate (''123'' @ ''.'' @ e))))"
proof -
  have a: "stem (candidate (s @ ''.'' @ e)) = s \<and> extension (candidate (s @ ''.'' @ e)) = e"
    if "CHR ''.'' \<notin> set e" for s
    using split_ext_join [OF that, of s] by (simp add: candidate_def)
  have b: "accepted (matcher [''612''] (candidate (''IMG_7612'' @ ''.'' @ e))) \<and>
      accepted (matcher [''23''] (candidate (''123'' @ ''.'' @ e)))"
    if "CHR ''.'' \<notin> set e" and "map lower e \<in> set supported_extensions"
    using a [OF that(1), of "''IMG_7612''"] a [OF that(1), of "''123''"] that(2)
    by (simp add: matcher_def ends_with_def)
  show ?thesis
    using matcher_accepted_iff [of S "candidate F"] a [of s] b by blast
qed

theorem matcher_accepts_witness:
  "accepted (matcher [''7608'', ''612''] (candidate ''IMG_7612.JPG'')) \<and>
   stem (candidate ''IMG_7612.JPG'') = ''IMG_7612'' \<and>
   extension (candidate ''IMG_7612.JPG'') = ''JPG'' \<and>
   accepted (matcher [''23''] (candidate ''123.heic'')) \<and>
   \<not> accepted (matcher [''7612''] (candidate ''IMG_7613.png'')) \<and>
   \<not> accepted (matcher [''7612''] (candidate ''IMG_7612.txt''))"
  using matcher_accepts [of "[''7608'', ''612'']" "''IMG_7612.JPG''" "''JPG''" "''IMG_7612''"]
    matcher_accepts [of "[''23'']" "''123.heic''" "''heic''" "''123''"]
    matcher_accepts [of "[''7612'']" "''IMG_7613.png''" "''png''" "''IMG_7613''"]
    matcher_accepts [of "[''7612'']" "''IMG_7612.txt''" "''txt''" "''IMG_7612''"]
  by (simp add: matcher_def candidate_def split_ext_def supported_extensions_def lower_def
      ends_with_def)

subsection \<open>CollisionResolver\<close>

lemma digit_value_digit: "d < 10 \<Longrightarrow> digit_value (digit d) = d"
proof -
  assume "d < 10"
  then have "d = 0 \<or> d = 1 \<or> d = 2 \<or> d = 3 \<or> d = 4 \<or> d = 5 \<or> d = 6 \<or> d = 7 \<or> d = 8 \<or> d = 9"
    by arith
  then show ?thesis
    by (elim disjE) (simp_all add: digit_value_def digit_def)
qed

lemma undec_dec: "undec (dec n) = n"
proof (induction n rule: dec.induct)
  case (1 n)
  show ?case
  proof (cases "n < 10")
    case True
    then show ?thesis by (simp add: dec.simps [of n] undec_def digit_value_digit)
  next
    case False
    with 1 have ih: "undec (dec (n div 10)) = n div 10" by simp
    have "undec (dec n) = 10 * undec (dec (n div 10)) + digit_value (digit (n mod 10))"
      using False by (simp add: dec.simps [of n] undec_def)
    also have "\<dots> = 10 * (n div 10) + n mod 10"
      by (simp add: ih digit_value_digit)
    finally show ?thesis by simp
  qed
qed

lemma dec_inj: "dec m = dec n \<Longrightarrow> m = n"
  by (metis undec_dec)

lemma alt_name_inj: "alt_name name j = alt_name name k \<Longrightarrow> j = k"
  by (auto simp: alt_name_def dest: dec_inj split: if_splits)

lemma some_unused: "\<exists>m\<ge>k. alt_name name m \<notin> set occupied"
proof (rule ccontr)
  assume "\<not> (\<exists>m\<ge>k. alt_name name m \<notin> set occupied)"
  then have "alt_name name ` {k..} \<subseteq> set occupied" by auto
  then have "finite (alt_name name ` {k..})" by (rule finite_subset) simp
  moreover have "inj_on (alt_name name) {k..}"
    by (rule inj_onI) (rule alt_name_inj)
  ultimately have "finite {k..}" by (rule finite_imageD)
  then show False by (simp add: infinite_Ici)
qed

lemma first_unused_least:
  "alt_name name m \<notin> set occupied \<Longrightarrow> k \<le> m \<Longrightarrow>
   \<exists>j. k \<le> j \<and> j \<le> m \<and> first_unused occupied name k = Some (alt_name name j) \<and>
       alt_name name j \<notin> set occupied \<and>
       (\<forall>i. k \<le> i \<and> i < j \<longrightarrow> alt_name name i \<in> set occupied)"
proof (induction "m - k" arbitrary: k)
  case 0
  then have "k = m" by simp
  with 0 show ?case
    by (subst first_unused.simps) auto
next
  case (Suc d)
  show ?case
  proof (cases "alt_name name k \<in> set occupied")
    case False
    then show ?thesis using Suc.prems
      by (subst first_unused.simps) auto
  next
    case True
    from Suc have "d = m - Suc k" and "Suc k \<le> m" by simp_all
    from Suc.hyps(1) [OF this(1) Suc.prems(1) this(2)]
    obtain j where j: "Suc k \<le> j" "j \<le> m"
      "first_unused occupied name (Suc k) = Some (alt_name name j)"
      "alt_name name j \<notin> set occupied"
      "\<forall>i. Suc k \<le> i \<and> i < j \<longrightarrow> alt_name name i \<in> set occupied"
      by blast
    have "\<forall>i. k \<le> i \<and> i < j \<longrightarrow> alt_name name i \<in> set occupied"
    proof (intro allI impI)
      fix i assume "k \<le> i \<and> i < j"
      then show "alt_name name i \<in> set occupied"
        using True j(5) by (cases "i = k") auto
    qed
    moreover have "first_unused occupied name k = Some (alt_name name j)"
      using True j(3) by (subst first_unused.simps) simp
    ultimately show ?thesis using j by (intro exI [of _ j]) simp
  qed
qed

text \<open>
  C4. When the desired name is occupied, the CollisionResolver returns (its search ends)
  the alternate \<open>stem-k.ext\<close> with the least \<open>k = 1, 2, ...\<close> that is not occupied, the
  numeric suffix standing immediately before the extension; when the desired name is free
  it returns that name unchanged.
\<close>

theorem resolve_least_unused:
  "(name \<notin> set occupied \<longrightarrow> resolve occupied name = Some name) \<and>
   (name \<in> set occupied \<longrightarrow>
      (\<exists>k. 1 \<le> k \<and> resolve occupied name = Some (alt_name name k) \<and>
           alt_name name k \<notin> set occupied \<and>
           (\<forall>j. 1 \<le> j \<and> j < k \<longrightarrow> alt_name name j \<in> set occupied))) \<and>
   (CHR ''.'' \<notin> set e \<longrightarrow> alt_name (s @ ''.'' @ e) k' = s @ ''-'' @ dec k' @ ''.'' @ e)"
proof -
  obtain m where m: "1 \<le> m" "alt_name name m \<notin> set occupied"
    using some_unused [of 1 name occupied] by blast
  from first_unused_least [OF m(2) m(1)]
  have "\<exists>k. 1 \<le> k \<and> first_unused occupied name 1 = Some (alt_name name k) \<and>
           alt_name name k \<notin> set occupied \<and>
           (\<forall>j. 1 \<le> j \<and> j < k \<longrightarrow> alt_name name j \<in> set occupied)"
    by blast
  moreover have "alt_name (s @ ''.'' @ e) k' = s @ ''-'' @ dec k' @ ''.'' @ e"
    if "CHR ''.'' \<notin> set e"
    using split_ext_join [OF that, of s] by (simp add: alt_name_def)
  ultimately show ?thesis by (simp add: resolve_def)
qed

theorem resolve_least_unused_witness:
  "resolve [''IMG_7612.jpg''] ''IMG_7612.jpg'' = Some ''IMG_7612-1.jpg'' \<and>
   resolve [''IMG_7612.jpg'', ''IMG_7612-1.jpg''] ''IMG_7612.jpg'' = Some ''IMG_7612-2.jpg'' \<and>
   resolve [''IMG_7605.jpg''] ''IMG_7612.jpg'' = Some ''IMG_7612.jpg'' \<and>
   alt_name ''IMG_7612.jpg'' 12 = ''IMG_7612-12.jpg''"
  using resolve_least_unused [of "''IMG_7612.jpg''" "[''IMG_7612.jpg'']" "''jpg''" "''IMG_7612''" 12]
    resolve_least_unused [of "''IMG_7612.jpg''" "[''IMG_7612.jpg'', ''IMG_7612-1.jpg'']" "''jpg''" "''IMG_7612''" 12]
    resolve_least_unused [of "''IMG_7612.jpg''" "[''IMG_7605.jpg'']" "''jpg''" "''IMG_7612''" 12]
  by (simp add: resolve_def first_unused.simps alt_name_def split_ext_def dec.simps digit_def)

end
